theory Spec2Isabelle
  imports
    Complex_Main
    "HOL-Library.Multiset"
    "HOL-Library.List_Lexorder"
    "HOL-Library.Char_ord"
begin

section \<open>Data model\<close>

text \<open>
  One row of the \<^verbatim>\<open>task_logs\<close> table as \<^verbatim>\<open>app.py\<close> reads it. The level is kept as
  a string, since values other than INFO, ERROR and CRITICAL can arrive. \<open>created_at\<close> is
  the pandas timestamp: nanoseconds since the epoch on the timeline the timestamp carries.
  The data frame \<^verbatim>\<open>df\<close> is the list of its rows, in row order.
\<close>

record LogEvent =
  task_name :: string
  level :: string
  message :: string
  run_source :: string
  created_at :: int

datatype py_error = ZeroDivisionError

section \<open>The pandas and Python operations the script calls\<close>

text \<open>
  \<^verbatim>\<open>Series.unique()\<close> and \<^verbatim>\<open>DataFrame.drop_duplicates(col)\<close> (keep = first) walk the
  rows once with a table of the keys seen so far and keep a row whose key is new.
\<close>

fun keep_first :: "('r \<Rightarrow> 'k) \<Rightarrow> 'k list \<Rightarrow> 'r list \<Rightarrow> 'r list" where
  "keep_first key seen [] = []"
| "keep_first key seen (r # rs) =
     (if key r \<in> set seen then keep_first key seen rs
      else r # keep_first key (key r # seen) rs)"

definition unique :: "'a list \<Rightarrow> 'a list" where
  "unique xs = keep_first (\<lambda>x. x) [] xs"

definition drop_duplicates :: "('r \<Rightarrow> 'k) \<Rightarrow> 'r list \<Rightarrow> 'r list" where
  "drop_duplicates key rows = keep_first key [] rows"

text \<open>
  \<^verbatim>\<open>sort_values(col, ascending=False)\<close> goes through pandas' \<^verbatim>\<open>nargsort\<close>: the keys and
  their positions are reversed, numpy's \<^verbatim>\<open>argsort\<close> sorts the reversed keys ascending,
  and the resulting indexer is reversed again. The script passes no \<^verbatim>\<open>kind\<close>, so the
  numpy algorithm is the default one (quicksort), which numpy does not document as
  stable; it is the parameter \<open>argsort\<close> here. \<open>valid_argsort\<close> is what every numpy kind
  guarantees: the result is a permutation of the positions that puts the keys in
  ascending order. \<open>argsort_stable\<close> is the stable kind.
\<close>

definition nargsort_desc :: "(int list \<Rightarrow> nat list) \<Rightarrow> int list \<Rightarrow> nat list" where
  "nargsort_desc argsort items =
     (let idx = [0..<length items];
          non_nans = rev items;
          non_nan_idx = rev idx;
          indexer = map (\<lambda>j. non_nan_idx ! j) (argsort non_nans)
      in rev indexer)"

definition sort_values_desc :: "(int list \<Rightarrow> nat list) \<Rightarrow> ('r \<Rightarrow> int) \<Rightarrow> 'r list \<Rightarrow> 'r list" where
  "sort_values_desc argsort key rows =
     map (\<lambda>i. rows ! i) (nargsort_desc argsort (map key rows))"

definition valid_argsort :: "(int list \<Rightarrow> nat list) \<Rightarrow> bool" where
  "valid_argsort argsort \<longleftrightarrow>
     (\<forall>ks. mset (argsort ks) = mset [0..<length ks] \<and> sorted (map (\<lambda>i. ks ! i) (argsort ks)))"

definition argsort_stable :: "int list \<Rightarrow> nat list" where
  "argsort_stable ks = sort_key (\<lambda>i. ks ! i) [0..<length ks]"

text \<open>
  \<^verbatim>\<open>groupby(keys).size()\<close> (sort = True): one entry per distinct key, keys ascending,
  with the number of rows carrying it. \<^verbatim>\<open>value_counts()\<close>: one entry per distinct
  value in order of first appearance with its count, then sorted by count descending
  with \<^verbatim>\<open>sort_values\<close>.
\<close>

definition groupby_size :: "'k::linorder list \<Rightarrow> ('k \<times> nat) list" where
  "groupby_size ks = map (\<lambda>k. (k, length (filter (\<lambda>x. x = k) ks))) (sort (unique ks))"

definition value_counts :: "(int list \<Rightarrow> nat list) \<Rightarrow> 'a list \<Rightarrow> ('a \<times> nat) list" where
  "value_counts argsort xs =
     sort_values_desc argsort (\<lambda>vc. int (snd vc))
       (map (\<lambda>v. (v, length (filter (\<lambda>x. x = v) xs))) (unique xs))"

text \<open>
  Python's \<^verbatim>\<open>a / b\<close> on integers raises on a zero divisor. The quotient is a float in
  Python; the model keeps the exact rational value, before rounding and formatting.
\<close>

definition true_div :: "nat \<Rightarrow> nat \<Rightarrow> py_error + rat" where
  "true_div a b = (if b = 0 then Inl ZeroDivisionError else Inr (of_nat a / of_nat b))"

section \<open>Alerts (lines 107--116)\<close>

text \<open>
  The alert state of the specification (computeAlertState): \<open>hasAlert\<close> and
  \<open>failedTasks\<close> read it off the banner the script shows.
\<close>

definition error_df :: "LogEvent list \<Rightarrow> LogEvent list" where
  "error_df df = filter (\<lambda>e. level e \<in> set [''ERROR'', ''CRITICAL'']) df"

datatype banner = St_Error nat "string list" | St_Success

definition alert_banner :: "LogEvent list \<Rightarrow> banner" where
  "alert_banner df =
     (if error_df df \<noteq> [] then
        (let error_count = length (error_df df);
             failed_scripts = unique (map task_name (error_df df))
         in St_Error error_count failed_scripts)
      else St_Success)"

fun hasAlert :: "banner \<Rightarrow> bool" where
  "hasAlert (St_Error n fs) = True"
| "hasAlert St_Success = False"

fun failedTasks :: "banner \<Rightarrow> string set" where
  "failedTasks (St_Error n fs) = set fs"
| "failedTasks St_Success = {}"

section \<open>Key metrics (lines 126--143)\<close>

definition total_runs :: "LogEvent list \<Rightarrow> nat" where
  "total_runs df = length df"

definition success_count :: "LogEvent list \<Rightarrow> nat" where
  "success_count df = length (filter (\<lambda>e. level e = ''INFO'') df)"

definition error_count :: "LogEvent list \<Rightarrow> nat" where
  "error_count df = length (filter (\<lambda>e. level e \<in> set [''ERROR'', ''CRITICAL'']) df)"

text \<open>The expression \<^verbatim>\<open>(success / total * 100) if total > 0 else 0\<close> of lines 138 and 197.\<close>

definition rate_or_zero :: "nat \<Rightarrow> nat \<Rightarrow> py_error + rat" where
  "rate_or_zero success total_n =
     (if total_n > 0 then
        (case true_div success total_n of Inl err \<Rightarrow> Inl err | Inr q \<Rightarrow> Inr (q * 100))
      else Inr 0)"

definition success_rate :: "LogEvent list \<Rightarrow> py_error + rat" where
  "success_rate df = rate_or_zero (success_count df) (total_runs df)"

definition unique_scripts :: "LogEvent list \<Rightarrow> nat" where
  "unique_scripts df = length (unique (map task_name df))"

section \<open>Latest run per task (lines 151--171)\<close>

text \<open>
  The latest status of the specification (computeLatestStatus) is \<open>latest_runs\<close>, a frame
  with one row per task; \<open>table_data\<close> is the table the page shows for it.
\<close>

definition latest_runs :: "(int list \<Rightarrow> nat list) \<Rightarrow> LogEvent list \<Rightarrow> LogEvent list" where
  "latest_runs argsort df = drop_duplicates task_name (sort_values_desc argsort created_at df)"

record table_row =
  Task_Name :: string
  Status :: string
  Message :: string
  Run_Source :: string
  Last_Run :: string

text \<open>
  The two status marks are the UTF-8 bytes of U+2705 and U+274C. \<open>strftime\<close> is the
  formatting of a timestamp as \<^verbatim>\<open>%Y-%m-%d %H:%M:%S\<close>, a parameter here.
\<close>

definition check_mark :: string where
  "check_mark = [CHR 0xE2, CHR 0x9C, CHR 0x85]"

definition cross_mark :: string where
  "cross_mark = [CHR 0xE2, CHR 0x9D, CHR 0x8C]"

definition table_entry :: "(int \<Rightarrow> string) \<Rightarrow> LogEvent \<Rightarrow> table_row" where
  "table_entry strftime row =
     (let status = (if level row = ''INFO'' then check_mark @ '' Success''
                    else cross_mark @ '' '' @ level row);
          message = (if level row \<in> set [''ERROR'', ''CRITICAL''] then message row else ''-'');
          last_run = strftime (created_at row)
      in \<lparr>Task_Name = task_name row, Status = status, Message = message,
          Run_Source = run_source row, Last_Run = last_run\<rparr>)"

definition table_data :: "(int \<Rightarrow> string) \<Rightarrow> LogEvent list \<Rightarrow> table_row list" where
  "table_data strftime rows = map (table_entry strftime) rows"

section \<open>Script statistics (lines 190--205)\<close>

text \<open>
  The task statistics of the specification (computeTaskStats). The loop body is
  \<open>script_entry\<close>; the column Success Rate holds the value that the script then formats
  with one decimal.
\<close>

record TaskStats =
  Script :: string
  Total_Runs :: nat
  Success :: nat
  Failed :: nat
  Success_Rate :: rat

definition script_entry :: "LogEvent list \<Rightarrow> string \<Rightarrow> py_error + TaskStats" where
  "script_entry df script_name =
     (let script_df = filter (\<lambda>e. task_name e = script_name) df;
          total_n = length script_df;
          success = length (filter (\<lambda>e. level e = ''INFO'') script_df);
          error = length (filter (\<lambda>e. level e \<in> set [''ERROR'', ''CRITICAL'']) script_df)
      in case rate_or_zero success total_n of
           Inl err \<Rightarrow> Inl err
         | Inr r \<Rightarrow> Inr \<lparr>Script = script_name, Total_Runs = total_n, Success = success,
                         Failed = error, Success_Rate = r\<rparr>)"

fun script_loop :: "LogEvent list \<Rightarrow> string list \<Rightarrow> py_error + TaskStats list" where
  "script_loop df [] = Inr []"
| "script_loop df (script_name # names) =
     (case script_entry df script_name of
        Inl err \<Rightarrow> Inl err
      | Inr row \<Rightarrow>
          (case script_loop df names of
             Inl err \<Rightarrow> Inl err
           | Inr rows \<Rightarrow> Inr (row # rows)))"

definition script_stats :: "LogEvent list \<Rightarrow> py_error + TaskStats list" where
  "script_stats df = script_loop df (sort (unique (map task_name df)))"

section \<open>Trends and level distribution (lines 225 and 238)\<close>

text \<open>
  The trend series (computeTrendSeries) and the level distribution
  (computeLevelDistribution) of the specification. A calendar date is the number of
  whole days since the epoch.
\<close>

definition date_of :: "int \<Rightarrow> int" where
  "date_of ts = ts div 86400000000000"

definition daily_stats :: "LogEvent list \<Rightarrow> (int \<times> nat) list" where
  "daily_stats df = groupby_size (map (\<lambda>e. date_of (created_at e)) df)"

definition level_stats :: "(int list \<Rightarrow> nat list) \<Rightarrow> LogEvent list \<Rightarrow> (string \<times> nat) list" where
  "level_stats argsort df = value_counts argsort (map level df)"

section \<open>The page (lines 98--247)\<close>

text \<open>
  The script computes the views only for a non-empty frame; for an empty one it shows a
  warning. The page is the data handed to the widgets and charts.
\<close>

record metrics =
  m_total_runs :: nat
  m_success :: nat
  m_failed :: nat
  m_success_rate :: rat
  m_total_scripts :: nat

datatype page =
    No_Data_Warning
  | Rendered banner metrics "table_row list" "TaskStats list" "(int \<times> nat) list" "(string \<times> nat) list"

definition dashboard ::
  "(int list \<Rightarrow> nat list) \<Rightarrow> (int \<Rightarrow> string) \<Rightarrow> LogEvent list \<Rightarrow> py_error + page" where
  "dashboard argsort strftime df =
     (if df = [] then Inr No_Data_Warning
      else
        (case success_rate df of
           Inl err \<Rightarrow> Inl err
         | Inr sr \<Rightarrow>
             (case script_stats df of
                Inl err \<Rightarrow> Inl err
              | Inr stats \<Rightarrow>
                  Inr (Rendered (alert_banner df)
                         \<lparr>m_total_runs = total_runs df, m_success = success_count df,
                          m_failed = error_count df, m_success_rate = sr,
                          m_total_scripts = unique_scripts df\<rparr>
                         (table_data strftime (latest_runs argsort df))
                         stats (daily_stats df) (level_stats argsort df)))))"

section \<open>Sample event collections\<close>

text \<open>
  \<open>scenario\<close>: task A succeeds at 10:00 and fails at 11:00, task B succeeds at 10:30, all
  on day 0. \<open>warnings\<close>: two events of an unclassified level on two different days.
  \<open>tied\<close>: two events of one task with the same timestamp, after an older one.
\<close>

definition scenario :: "LogEvent list" where
  "scenario =
     [\<lparr>task_name = ''A'', level = ''INFO'', message = ''ok'', run_source = ''scheduled'',
        created_at = 36000000000000\<rparr>,
      \<lparr>task_name = ''A'', level = ''ERROR'', message = ''boom'', run_source = ''manual'',
        created_at = 39600000000000\<rparr>,
      \<lparr>task_name = ''B'', level = ''INFO'', message = ''ok'', run_source = ''scheduled'',
        created_at = 37800000000000\<rparr>]"

definition warnings :: "LogEvent list" where
  "warnings =
     [\<lparr>task_name = ''B'', level = ''WARNING'', message = ''slow'', run_source = ''manual'',
        created_at = 90000000000000\<rparr>,
      \<lparr>task_name = ''A'', level = ''WARNING'', message = ''late'', run_source = ''manual'',
        created_at = 360000000000000\<rparr>]"


section \<open>Facts about the primitives\<close>

subsection \<open>Keeping the first row of every key\<close>

lemma keep_first_keys:
  "set (map key (keep_first key seen rs)) = key ` set rs - set seen"
  by (induction rs arbitrary: seen) auto

lemma keep_first_subset: "set (keep_first key seen rs) \<subseteq> set rs"
  by (induction rs arbitrary: seen) auto

lemma keep_first_distinct: "distinct (map key (keep_first key seen rs))"
proof (induction rs arbitrary: seen)
  case Nil
  show ?case by simp
next
  case (Cons r rs)
  have "key r \<notin> set (map key (keep_first key (key r # seen) rs))"
    unfolding keep_first_keys by simp
  with Cons show ?case by simp
qed

lemma keep_first_find:
  "find (\<lambda>r. key r = k) (keep_first key seen rs) =
     (if k \<in> set seen then None else find (\<lambda>r. key r = k) rs)"
proof (induction rs arbitrary: seen)
  case Nil
  show ?case by simp
next
  case (Cons r rs)
  show ?case
  proof (cases "key r \<in> set seen")
    case True
    with Cons show ?thesis by auto
  next
    case False
    with Cons show ?thesis by auto
  qed
qed

lemma set_unique: "set (unique xs) = set xs"
  using keep_first_keys [of "\<lambda>x. x" "[]" xs] by (simp add: unique_def)

lemma distinct_unique: "distinct (unique xs)"
  using keep_first_distinct [of "\<lambda>x. x" "[]" xs] by (simp add: unique_def)


subsection \<open>Descending sort\<close>

lemma valid_argsort_set: "valid_argsort a \<Longrightarrow> set (a ks) = {0..<length ks}"
  unfolding valid_argsort_def by (metis set_mset_mset set_upt)

lemma sort_values_desc_alt:
  assumes "valid_argsort a"
  shows "sort_values_desc a key rows = rev (map (\<lambda>j. rev rows ! j) (a (map key (rev rows))))"
proof -
  let ?n = "length rows"
  let ?ks = "rev (map key rows)"
  have in_range: "j < ?n" if "j \<in> set (a ?ks)" for j
    using that valid_argsort_set [OF assms, of ?ks] by simp
  have step: "rows ! (rev [0..<?n] ! j) = rev rows ! j" if "j \<in> set (a ?ks)" for j
    using in_range [OF that] by (simp add: rev_nth)
  have "map (\<lambda>i. rows ! i) (map (\<lambda>j. rev [0..<?n] ! j) (a ?ks)) = map (\<lambda>j. rev rows ! j) (a ?ks)"
    using step by simp
  then show ?thesis
    by (simp add: sort_values_desc_def nargsort_desc_def Let_def rev_map)
qed

lemma mset_sort_values_desc:
  assumes "valid_argsort a"
  shows "mset (sort_values_desc a key rows) = mset rows"
proof -
  let ?r = "rev rows"
  let ?ks = "map key ?r"
  have "mset (a ?ks) = mset [0..<length ?r]"
    using assms unfolding valid_argsort_def by (metis length_map)
  then have "image_mset (\<lambda>j. ?r ! j) (mset (a ?ks)) = image_mset (\<lambda>j. ?r ! j) (mset [0..<length ?r])"
    by simp
  also have "\<dots> = mset (map (\<lambda>j. ?r ! j) [0..<length ?r])"
    by simp
  also have "\<dots> = mset ?r"
    by (simp only: map_nth)
  finally show ?thesis
    by (simp add: sort_values_desc_alt [OF assms])
qed

lemma sorted_sort_values_desc:
  assumes "valid_argsort a"
  shows "sorted (rev (map key (sort_values_desc a key rows)))"
proof -
  let ?r = "rev rows"
  let ?ks = "map key ?r"
  have "key (?r ! j) = ?ks ! j" if "j \<in> set (a ?ks)" for j
    using that valid_argsort_set [OF assms, of ?ks] by simp
  then have eq: "map (\<lambda>j. key (?r ! j)) (a ?ks) = map (\<lambda>j. ?ks ! j) (a ?ks)"
    by simp
  have "sorted (map (\<lambda>j. ?ks ! j) (a ?ks))"
    using assms unfolding valid_argsort_def by blast
  then have "sorted (map (\<lambda>j. key (?r ! j)) (a ?ks))"
    by (simp only: eq)
  then show ?thesis
    by (simp add: sort_values_desc_alt [OF assms] rev_map comp_def)
qed

lemma valid_argsort_stable: "valid_argsort argsort_stable"
  unfolding valid_argsort_def argsort_stable_def
  by simp

subsection \<open>The stable kind keeps input order among equal keys\<close>










subsection \<open>Latest runs\<close>

lemma find_sorted_desc_max:
  fixes key :: "'r \<Rightarrow> int"
  assumes "sorted (rev (map key xs))" and "find P xs = Some e" and "e' \<in> set xs" and "P e'"
  shows "key e' \<le> key e"
  using assms
proof (induction xs)
  case Nil
  then show ?case by simp
next
  case (Cons x xs)
  from Cons.prems(1) have tl: "sorted (rev (map key xs))" and hd: "\<forall>y\<in>set xs. key y \<le> key x"
    by (auto simp: sorted_append)
  show ?case
  proof (cases "P x")
    case True
    with Cons.prems(2) have "e = x" by simp
    with hd Cons.prems(3) show ?thesis by auto
  next
    case False
    with Cons.prems have "find P xs = Some e" and "e' \<in> set xs" by auto
    with Cons.IH tl Cons.prems(4) show ?thesis by blast
  qed
qed

lemma find_distinct_key:
  "distinct (map key xs) \<Longrightarrow> e \<in> set xs \<Longrightarrow> find (\<lambda>r. key r = key e) xs = Some e"
  by (induction xs) auto

lemma set_sort_values_desc:
  "valid_argsort a \<Longrightarrow> set (sort_values_desc a key rows) = set rows"
  using mset_sort_values_desc [of a key rows] by (metis set_mset_mset)

lemma latest_runs_find:
  "find (\<lambda>e. task_name e = t) (latest_runs a df)
     = find (\<lambda>e. task_name e = t) (sort_values_desc a created_at df)"
  by (simp add: latest_runs_def drop_duplicates_def keep_first_find)

lemma latest_runs_names:
  "valid_argsort a \<Longrightarrow> task_name ` set (latest_runs a df) = task_name ` set df"
  using keep_first_keys [of task_name "[]" "sort_values_desc a created_at df"]
  by (simp add: latest_runs_def drop_duplicates_def set_sort_values_desc)

lemma latest_runs_distinct: "distinct (map task_name (latest_runs a df))"
  by (simp add: latest_runs_def drop_duplicates_def keep_first_distinct)

lemma latest_runs_subset: "valid_argsort a \<Longrightarrow> set (latest_runs a df) \<subseteq> set df"
  using keep_first_subset [of task_name "[]" "sort_values_desc a created_at df"]
  by (simp add: latest_runs_def drop_duplicates_def set_sort_values_desc)

lemma latest_runs_max:
  assumes "valid_argsort a" and "e \<in> set (latest_runs a df)"
    and "e' \<in> set df" and "task_name e' = task_name e"
  shows "created_at e' \<le> created_at e"
proof -
  let ?S = "sort_values_desc a created_at df"
  have "find (\<lambda>r. task_name r = task_name e) (latest_runs a df) = Some e"
    using latest_runs_distinct assms(2) by (rule find_distinct_key)
  then have first: "find (\<lambda>r. task_name r = task_name e) ?S = Some e"
    by (simp add: latest_runs_find)
  have desc: "sorted (rev (map created_at ?S))"
    using assms(1) by (rule sorted_sort_values_desc)
  have mem: "e' \<in> set ?S"
    using assms(1,3) by (simp add: set_sort_values_desc)
  show ?thesis
    using desc first mem assms(4) by (rule find_sorted_desc_max)
qed

lemma latest_runs_length:
  assumes "valid_argsort a"
  shows "length (latest_runs a df) = card (task_name ` set df)"
proof -
  have "card (set (map task_name (latest_runs a df))) = length (map task_name (latest_runs a df))"
    using latest_runs_distinct by (rule distinct_card)
  then show ?thesis
    using latest_runs_names [OF assms, of df] by simp
qed

lemma latest_runs_empty: "valid_argsort a \<Longrightarrow> latest_runs a [] = []"
  using latest_runs_subset [of a "[]"] by simp


subsection \<open>Script statistics never raise\<close>

lemma rate_or_zero_value:
  "rate_or_zero s t = Inr (if t = 0 then 0 else of_nat s / of_nat t * 100)"
  by (simp add: rate_or_zero_def true_div_def)

lemma script_entry_value:
  "script_entry df n =
     Inr \<lparr>Script = n,
          Total_Runs = length (filter (\<lambda>e. task_name e = n) df),
          Success = length (filter (\<lambda>e. task_name e = n \<and> level e = ''INFO'') df),
          Failed = length (filter (\<lambda>e. task_name e = n \<and> (level e = ''ERROR'' \<or> level e = ''CRITICAL'')) df),
          Success_Rate =
            (if length (filter (\<lambda>e. task_name e = n) df) = 0 then 0
             else of_nat (length (filter (\<lambda>e. task_name e = n \<and> level e = ''INFO'') df))
                    / of_nat (length (filter (\<lambda>e. task_name e = n) df)) * 100)\<rparr>"
proof -
  have a: "filter (\<lambda>e. level e = ''INFO'') (filter (\<lambda>e. task_name e = n) df)
             = filter (\<lambda>e. task_name e = n \<and> level e = ''INFO'') df"
    by (simp add: conj_commute)
  have b: "filter (\<lambda>e. level e \<in> set [''ERROR'', ''CRITICAL'']) (filter (\<lambda>e. task_name e = n) df)
             = filter (\<lambda>e. task_name e = n \<and> (level e = ''ERROR'' \<or> level e = ''CRITICAL'')) df"
    by (auto intro: filter_cong)
  show ?thesis
    unfolding script_entry_def Let_def a b rate_or_zero_value by simp
qed

lemma script_loop_rows:
  "\<exists>rows. script_loop df ns = Inr rows \<and> map Script rows = ns
          \<and> (\<forall>r\<in>set rows. script_entry df (Script r) = Inr r)"
proof (induction ns)
  case Nil
  show ?case by simp
next
  case (Cons n ns)
  then obtain rows where rows: "script_loop df ns = Inr rows" "map Script rows = ns"
    "\<forall>r\<in>set rows. script_entry df (Script r) = Inr r" by blast
  obtain row where row: "script_entry df n = Inr row" "Script row = n"
    using script_entry_value [of df n] by simp
  have "script_loop df (n # ns) = Inr (row # rows)"
    using rows(1) row(1) by simp
  moreover have "map Script (row # rows) = n # ns"
    using rows(2) row(2) by simp
  moreover have "\<forall>r\<in>set (row # rows). script_entry df (Script r) = Inr r"
    using rows(3) row by simp
  ultimately have "script_loop df (n # ns) = Inr (row # rows) \<and> map Script (row # rows) = n # ns
      \<and> (\<forall>r\<in>set (row # rows). script_entry df (Script r) = Inr r)"
    by (intro conjI)
  then show ?case by (rule exI)
qed

lemma script_stats_rows:
  "\<exists>rows. script_stats df = Inr rows \<and> map Script rows = sort (unique (map task_name df))
          \<and> (\<forall>r\<in>set rows. script_entry df (Script r) = Inr r)"
  unfolding script_stats_def by (rule script_loop_rows)

lemma script_entry_fields:
  assumes "script_entry df n = Inr r"
  shows "Script r = n"
    and "Total_Runs r = length (filter (\<lambda>e. task_name e = n) df)"
    and "Success r = length (filter (\<lambda>e. task_name e = n \<and> level e = ''INFO'') df)"
    and "Failed r = length (filter (\<lambda>e. task_name e = n
                                  \<and> (level e = ''ERROR'' \<or> level e = ''CRITICAL'')) df)"
    and "Success_Rate r =
           (if length (filter (\<lambda>e. task_name e = n) df) = 0 then 0
            else of_nat (length (filter (\<lambda>e. task_name e = n \<and> level e = ''INFO'') df))
                   / of_nat (length (filter (\<lambda>e. task_name e = n) df)) * 100)"
  using assms unfolding script_entry_value by auto

lemma level_split:
  "length (filter G df)
     = length (filter (\<lambda>e. G e \<and> level e = ''INFO'') df)
     + length (filter (\<lambda>e. G e \<and> (level e = ''ERROR'' \<or> level e = ''CRITICAL'')) df)
     + length (filter (\<lambda>e. G e \<and> level e \<noteq> ''INFO''
                          \<and> level e \<noteq> ''ERROR'' \<and> level e \<noteq> ''CRITICAL'') df)"
  by (induction df) auto

lemma dashboard_rendered:
  assumes "df \<noteq> []"
  shows "\<exists>sr stats. success_rate df = Inr sr \<and> script_stats df = Inr stats
     \<and> dashboard a fmt df =
         Inr (Rendered (alert_banner df)
                \<lparr>m_total_runs = total_runs df, m_success = success_count df,
                 m_failed = error_count df, m_success_rate = sr,
                 m_total_scripts = unique_scripts df\<rparr>
                (table_data fmt (latest_runs a df))
                stats (daily_stats df) (level_stats a df))"
proof -
  obtain stats where stats: "script_stats df = Inr stats"
    using script_stats_rows by blast
  obtain sr where sr: "success_rate df = Inr sr"
    by (simp add: success_rate_def rate_or_zero_value)
  show ?thesis
    using assms stats sr by (simp add: dashboard_def)
qed


subsection \<open>Counting\<close>

lemma length_filter_eq_count: "length (filter (\<lambda>x. x = k) ks) = count (mset ks) k"
  by (induction ks) auto

lemma sum_list_counts:
  assumes "distinct ds" and "set ds = set ks"
  shows "sum_list (map (\<lambda>k. length (filter (\<lambda>x. x = k) ks)) ds) = length ks"
proof -
  have "sum_list (map (\<lambda>k. count (mset ks) k) ds) = sum (count (mset ks)) (set ds)"
    using assms(1) by (rule sum_list_distinct_conv_sum_set)
  also have "\<dots> = sum (count (mset ks)) (set_mset (mset ks))"
    using assms(2) by simp
  also have "\<dots> = size (mset ks)"
    by (simp only: size_multiset_overloaded_eq)
  finally show ?thesis
    by (simp add: length_filter_eq_count)
qed

lemma sum_list_mset_cong:
  fixes f :: "'a \<Rightarrow> nat"
  assumes "mset xs = mset ys"
  shows "sum_list (map f xs) = sum_list (map f ys)"
proof -
  have "sum_mset (mset (map f xs)) = sum_mset (mset (map f ys))"
    using assms by simp
  then show ?thesis
    by (simp only: sum_mset_sum_list)
qed

lemma length_filter_mset_cong:
  assumes "mset xs = mset ys"
  shows "length (filter P xs) = length (filter P ys)"
proof -
  have "size (mset (filter P xs)) = size (mset (filter P ys))"
    using assms by simp
  then show ?thesis
    by (simp only: size_mset)
qed

lemma groupby_size_keys: "map fst (groupby_size ks) = sort (unique ks)"
  by (simp add: groupby_size_def comp_def)

lemma groupby_size_counts: "map snd (groupby_size ks)
    = map (\<lambda>k. length (filter (\<lambda>x. x = k) ks)) (sort (unique ks))"
  by (simp add: groupby_size_def comp_def)

lemma groupby_size_entry:
  assumes "dc \<in> set (groupby_size ks)"
  shows "fst dc \<in> set ks \<and> snd dc = length (filter (\<lambda>x. x = fst dc) ks)"
  using assms by (auto simp: groupby_size_def set_unique)

lemma length_filter_pos: "k \<in> set ks \<Longrightarrow> 0 < length (filter (\<lambda>x. x = k) ks)"
  by (simp add: filter_empty_conv)

lemma script_stats_total_sum:
  "\<exists>rows. script_stats df = Inr rows \<and> sum_list (map Total_Runs rows) = length df"
proof -
  let ?ns = "map task_name df"
  obtain rows where rows: "script_stats df = Inr rows"
    "map Script rows = sort (unique ?ns)"
    "\<forall>r\<in>set rows. script_entry df (Script r) = Inr r"
    using script_stats_rows by blast
  have "Total_Runs r = length (filter (\<lambda>x. x = Script r) ?ns)" if "r \<in> set rows" for r
  proof -
    define n where "n = Script r"
    from rows(3) that have e: "script_entry df n = Inr r"
      unfolding n_def by blast
    have "Total_Runs r = length (filter (\<lambda>e. task_name e = n) df)"
      using e unfolding script_entry_value by auto
    then show ?thesis
      unfolding n_def [symmetric] by (simp add: filter_map comp_def)
  qed
  then have "map Total_Runs rows = map (\<lambda>r. length (filter (\<lambda>x. x = Script r) ?ns)) rows"
    by simp
  also have "\<dots> = map (\<lambda>n. length (filter (\<lambda>x. x = n) ?ns)) (map Script rows)"
    by (simp add: comp_def)
  finally have "sum_list (map Total_Runs rows)
      = sum_list (map (\<lambda>n. length (filter (\<lambda>x. x = n) ?ns)) (sort (unique ?ns)))"
    by (simp only: rows(2))
  also have "\<dots> = length ?ns"
    by (rule sum_list_counts) (simp_all add: distinct_unique set_unique)
  finally have "sum_list (map Total_Runs rows) = length df"
    by simp
  with rows(1) show ?thesis by blast
qed

lemma value_counts_sum:
  assumes "valid_argsort a"
  shows "sum_list (map snd (value_counts a xs)) = length xs"
proof -
  let ?tab = "map (\<lambda>v. (v, length (filter (\<lambda>x. x = v) xs))) (unique xs)"
  have "mset (value_counts a xs) = mset ?tab"
    unfolding value_counts_def using assms by (rule mset_sort_values_desc)
  then have "sum_list (map snd (value_counts a xs)) = sum_list (map snd ?tab)"
    by (rule sum_list_mset_cong)
  also have "\<dots> = sum_list (map (\<lambda>v. length (filter (\<lambda>x. x = v) xs)) (unique xs))"
    by (simp add: comp_def)
  also have "\<dots> = length xs"
    by (rule sum_list_counts) (simp_all add: distinct_unique set_unique)
  finally show ?thesis .
qed

subsection \<open>Independence of the row order\<close>

lemma script_entry_mset_cong:
  assumes "mset df' = mset df"
  shows "script_entry df' n = script_entry df n"
  unfolding script_entry_value
  by (simp only: length_filter_mset_cong [OF assms])

lemma script_loop_mset_cong:
  assumes "mset df' = mset df"
  shows "script_loop df' ns = script_loop df ns"
proof (induction ns)
  case Nil
  show ?case by simp
next
  case (Cons n ns)
  show ?case
    by (simp only: script_loop.simps Cons.IH script_entry_mset_cong [OF assms])
qed

lemma sorted_names_mset_cong:
  assumes "mset df' = mset df"
  shows "sort (unique (map task_name df')) = sort (unique (map task_name df))"
proof (rule sorted_distinct_set_unique)
  have "set df' = set df"
    using assms by (rule mset_eq_setD)
  then show "set (sort (unique (map task_name df'))) = set (sort (unique (map task_name df)))"
    by (simp add: set_unique)
qed (simp_all add: distinct_unique)


section \<open>The claims\<close>

text \<open>
  Claim C1 (the latest status per task, line 151). For every collection of events, and
  whichever order numpy's argsort gives to equal keys, \<open>latest_runs\<close> holds exactly one
  event per distinct task name: the task names of its rows are distinct and are the task
  names of the input, so its length is the number of distinct task names, and it is empty
  for the empty collection. Every retained event is an event of the input whose
  \<open>created_at\<close> is the maximum among the events of its task. The result is obtained by
  sorting: the sorted frame is a permutation of the input with \<open>created_at\<close> descending,
  and the event retained for a task is the first event of that task in the sorted frame.
\<close>
theorem latest_runs_one_per_task:
  assumes "valid_argsort a"
  shows "distinct (map task_name (latest_runs a df))
       \<and> task_name ` set (latest_runs a df) = task_name ` set df
       \<and> length (latest_runs a df) = card (task_name ` set df)
       \<and> (\<forall>e\<in>set (latest_runs a df). e \<in> set df
             \<and> (\<forall>e'\<in>set df. task_name e' = task_name e \<longrightarrow> created_at e' \<le> created_at e))
       \<and> latest_runs a [] = []
       \<and> mset (sort_values_desc a created_at df) = mset df
       \<and> sorted (rev (map created_at (sort_values_desc a created_at df)))
       \<and> (\<forall>t. find (\<lambda>e. task_name e = t) (latest_runs a df)
                = find (\<lambda>e. task_name e = t) (sort_values_desc a created_at df))"
  using assms latest_runs_distinct [of a df] latest_runs_names [of a df] latest_runs_length [of a df]
    latest_runs_subset [of a df] latest_runs_max [of a _ df] latest_runs_empty [of a]
    mset_sort_values_desc [of a created_at df] sorted_sort_values_desc [of a created_at df]
    latest_runs_find [of _ a df]
  by (intro conjI ballI allI impI) auto

theorem latest_runs_one_per_task_witness:
  "valid_argsort argsort_stable
   \<and> map message (latest_runs argsort_stable scenario) = [''boom'', ''ok'']
   \<and> card (task_name ` set scenario) = 2
   \<and> created_at (scenario ! 0) \<le> created_at (scenario ! 1)"
proof -
  note main = latest_runs_one_per_task [OF valid_argsort_stable, of scenario]
  have ev: "latest_runs argsort_stable scenario = [scenario ! 1, scenario ! 2]"
    by code_simp
  have b: "map message (latest_runs argsort_stable scenario) = [''boom'', ''ok'']"
    unfolding ev by (simp add: scenario_def)
  from main have "length (latest_runs argsort_stable scenario) = card (task_name ` set scenario)"
    by blast
  then have c: "card (task_name ` set scenario) = 2"
    unfolding ev by simp
  from main have "\<forall>e\<in>set (latest_runs argsort_stable scenario). e \<in> set scenario
      \<and> (\<forall>e'\<in>set scenario. task_name e' = task_name e \<longrightarrow> created_at e' \<le> created_at e)"
    by blast
  then have "\<forall>e'\<in>set scenario. task_name e' = task_name (scenario ! 1)
      \<longrightarrow> created_at e' \<le> created_at (scenario ! 1)"
    unfolding ev by simp
  moreover have "scenario ! 0 \<in> set scenario" and "task_name (scenario ! 0) = task_name (scenario ! 1)"
    by (simp_all add: scenario_def)
  ultimately have d: "created_at (scenario ! 0) \<le> created_at (scenario ! 1)"
    by blast
  from valid_argsort_stable b c d show ?thesis by (intro conjI)
qed

text \<open>
  Claim C2 (the script statistics, lines 191--205). The loop never raises, and it yields
  one row per distinct task name of the input. In the row of a task, Total Runs is the
  number of events of the task, Success the number of those with level INFO, Failed the
  number of those with level ERROR or CRITICAL; an event with any other level is counted
  in Total Runs only. Success Rate is Success / Total Runs * 100, and 0 when Total Runs
  is 0.
\<close>
theorem script_stats_counts:
  "\<exists>rows. script_stats df = Inr rows
      \<and> distinct (map Script rows)
      \<and> Script ` set rows = task_name ` set df
      \<and> (\<forall>r\<in>set rows.
            Total_Runs r = length (filter (\<lambda>e. task_name e = Script r) df)
          \<and> Success r = length (filter (\<lambda>e. task_name e = Script r \<and> level e = ''INFO'') df)
          \<and> Failed r = length (filter (\<lambda>e. task_name e = Script r
                                    \<and> (level e = ''ERROR'' \<or> level e = ''CRITICAL'')) df)
          \<and> Total_Runs r = Success r + Failed r
               + length (filter (\<lambda>e. task_name e = Script r \<and> level e \<noteq> ''INFO''
                                    \<and> level e \<noteq> ''ERROR'' \<and> level e \<noteq> ''CRITICAL'') df)
          \<and> Success_Rate r = (if Total_Runs r = 0 then 0
                               else of_nat (Success r) / of_nat (Total_Runs r) * 100)
          \<and> rate_or_zero (Success r) (Total_Runs r) = Inr (Success_Rate r))
      \<and> rate_or_zero s 0 = Inr 0"
proof -
  obtain rows where rows: "script_stats df = Inr rows"
    "map Script rows = sort (unique (map task_name df))"
    "\<forall>r\<in>set rows. script_entry df (Script r) = Inr r"
    using script_stats_rows by blast
  have d: "distinct (map Script rows)"
    by (simp add: rows(2) distinct_unique)
  have "set (map Script rows) = task_name ` set df"
    by (simp only: rows(2) set_sort set_unique set_map)
  then have s: "Script ` set rows = task_name ` set df"
    by simp
  have per: "\<forall>r\<in>set rows.
            Total_Runs r = length (filter (\<lambda>e. task_name e = Script r) df)
          \<and> Success r = length (filter (\<lambda>e. task_name e = Script r \<and> level e = ''INFO'') df)
          \<and> Failed r = length (filter (\<lambda>e. task_name e = Script r
                                    \<and> (level e = ''ERROR'' \<or> level e = ''CRITICAL'')) df)
          \<and> Total_Runs r = Success r + Failed r
               + length (filter (\<lambda>e. task_name e = Script r \<and> level e \<noteq> ''INFO''
                                    \<and> level e \<noteq> ''ERROR'' \<and> level e \<noteq> ''CRITICAL'') df)
          \<and> Success_Rate r = (if Total_Runs r = 0 then 0
                               else of_nat (Success r) / of_nat (Total_Runs r) * 100)
          \<and> rate_or_zero (Success r) (Total_Runs r) = Inr (Success_Rate r)"
  proof
    fix r
    assume "r \<in> set rows"
    with rows(3) have e: "script_entry df (Script r) = Inr r"
      by blast
    note t = script_entry_fields(2) [OF e] and u = script_entry_fields(3) [OF e]
      and f = script_entry_fields(4) [OF e] and q = script_entry_fields(5) [OF e]
    have tot: "Total_Runs r = Success r + Failed r
               + length (filter (\<lambda>e. task_name e = Script r \<and> level e \<noteq> ''INFO''
                                    \<and> level e \<noteq> ''ERROR'' \<and> level e \<noteq> ''CRITICAL'') df)"
      using level_split [of "\<lambda>e. task_name e = Script r" df] by (simp only: t u f)
    have rate: "Success_Rate r = (if Total_Runs r = 0 then 0
                               else of_nat (Success r) / of_nat (Total_Runs r) * 100)"
      by (simp only: t u q)
    have roz: "rate_or_zero (Success r) (Total_Runs r) = Inr (Success_Rate r)"
      unfolding rate_or_zero_value by (simp only: t u q)
    from t u f tot rate roz
    show "Total_Runs r = length (filter (\<lambda>e. task_name e = Script r) df)
          \<and> Success r = length (filter (\<lambda>e. task_name e = Script r \<and> level e = ''INFO'') df)
          \<and> Failed r = length (filter (\<lambda>e. task_name e = Script r
                                    \<and> (level e = ''ERROR'' \<or> level e = ''CRITICAL'')) df)
          \<and> Total_Runs r = Success r + Failed r
               + length (filter (\<lambda>e. task_name e = Script r \<and> level e \<noteq> ''INFO''
                                    \<and> level e \<noteq> ''ERROR'' \<and> level e \<noteq> ''CRITICAL'') df)
          \<and> Success_Rate r = (if Total_Runs r = 0 then 0
                               else of_nat (Success r) / of_nat (Total_Runs r) * 100)
          \<and> rate_or_zero (Success r) (Total_Runs r) = Inr (Success_Rate r)"
      by (intro conjI)
  qed
  have z: "rate_or_zero s 0 = Inr 0"
    by (simp add: rate_or_zero_def)
  from rows(1) d s per z show ?thesis
    by (intro exI [of _ rows] conjI)
qed

theorem script_stats_counts_witness:
  "script_stats scenario =
     Inr [\<lparr>Script = ''A'', Total_Runs = 2, Success = 1, Failed = 1, Success_Rate = 50\<rparr>,
          \<lparr>Script = ''B'', Total_Runs = 1, Success = 1, Failed = 0, Success_Rate = 100\<rparr>]
   \<and> length (filter (\<lambda>e. task_name e = ''A'') scenario) = 2
   \<and> length (filter (\<lambda>e. task_name e = ''A'' \<and> level e = ''INFO'') scenario) = 1
   \<and> length (filter (\<lambda>e. task_name e = ''A''
                       \<and> (level e = ''ERROR'' \<or> level e = ''CRITICAL'')) scenario) = 1"
proof -
  let ?A = "\<lparr>Script = ''A'', Total_Runs = 2, Success = 1, Failed = 1, Success_Rate = 50\<rparr>"
  let ?B = "\<lparr>Script = ''B'', Total_Runs = 1, Success = 1, Failed = 0, Success_Rate = 100\<rparr>"
  have ev: "script_stats scenario = Inr [?A, ?B]"
    by code_simp
  obtain rows where rows: "script_stats scenario = Inr rows"
    and counts: "\<forall>r\<in>set rows.
            Total_Runs r = length (filter (\<lambda>e. task_name e = Script r) scenario)
          \<and> Success r = length (filter (\<lambda>e. task_name e = Script r \<and> level e = ''INFO'') scenario)
          \<and> Failed r = length (filter (\<lambda>e. task_name e = Script r
                                    \<and> (level e = ''ERROR'' \<or> level e = ''CRITICAL'')) scenario)"
    using script_stats_counts [of scenario 0] by blast
  from rows ev have "rows = [?A, ?B]"
    by (simp only: sum.inject)
  then have "?A \<in> set rows"
    by (simp only: list.set insertI1)
  with counts have "Total_Runs ?A = length (filter (\<lambda>e. task_name e = Script ?A) scenario)
          \<and> Success ?A = length (filter (\<lambda>e. task_name e = Script ?A \<and> level e = ''INFO'') scenario)
          \<and> Failed ?A = length (filter (\<lambda>e. task_name e = Script ?A
                                    \<and> (level e = ''ERROR'' \<or> level e = ''CRITICAL'')) scenario)"
    by blast
  with ev show ?thesis by simp
qed

text \<open>
  Claim C3 (the alert, lines 107--116). The alert is raised if and only if some event has
  level ERROR or CRITICAL; the failed scripts are, without repetition, exactly the task
  names of those events, and the count shown is the number of those events. When every
  event has the level WARNING, no alert is raised.
\<close>
theorem alert_state_iff:
  "(hasAlert (alert_banner df) \<longleftrightarrow> (\<exists>e\<in>set df. level e = ''ERROR'' \<or> level e = ''CRITICAL''))
   \<and> failedTasks (alert_banner df)
         = task_name ` {e \<in> set df. level e = ''ERROR'' \<or> level e = ''CRITICAL''}
   \<and> (case alert_banner df of
         St_Error n fs \<Rightarrow> distinct fs \<and> n = length (filter (\<lambda>e. level e = ''ERROR'' \<or> level e = ''CRITICAL'') df)
       | St_Success \<Rightarrow> True)
   \<and> ((\<forall>e\<in>set df. level e = ''WARNING'') \<longrightarrow> \<not> hasAlert (alert_banner df))"
proof -
  have f: "error_df df = filter (\<lambda>e. level e = ''ERROR'' \<or> level e = ''CRITICAL'') df"
    by (simp add: error_df_def)
  have a: "hasAlert (alert_banner df) \<longleftrightarrow> (\<exists>e\<in>set df. level e = ''ERROR'' \<or> level e = ''CRITICAL'')"
    by (auto simp: alert_banner_def f filter_empty_conv)
  have b: "failedTasks (alert_banner df)
         = task_name ` {e \<in> set df. level e = ''ERROR'' \<or> level e = ''CRITICAL''}"
    by (auto simp: alert_banner_def f set_unique filter_empty_conv)
  have c: "(case alert_banner df of
         St_Error n fs \<Rightarrow> distinct fs \<and> n = length (filter (\<lambda>e. level e = ''ERROR'' \<or> level e = ''CRITICAL'') df)
       | St_Success \<Rightarrow> True)"
    by (simp add: alert_banner_def f distinct_unique)
  have d: "(\<forall>e\<in>set df. level e = ''WARNING'') \<longrightarrow> \<not> hasAlert (alert_banner df)"
    unfolding a by auto
  from a b c d show ?thesis by (intro conjI)
qed

theorem alert_state_iff_witness:
  "hasAlert (alert_banner scenario) \<and> failedTasks (alert_banner scenario) = {''A''}
   \<and> map level warnings = [''WARNING'', ''WARNING''] \<and> \<not> hasAlert (alert_banner warnings)"
proof -
  have "\<exists>e\<in>set scenario. level e = ''ERROR'' \<or> level e = ''CRITICAL''"
    by (simp add: scenario_def)
  with alert_state_iff [of scenario] have a: "hasAlert (alert_banner scenario)"
    by blast
  have "task_name ` set (filter (\<lambda>e. level e = ''ERROR'' \<or> level e = ''CRITICAL'') scenario) = {''A''}"
    by (simp add: scenario_def)
  then have "task_name ` {e \<in> set scenario. level e = ''ERROR'' \<or> level e = ''CRITICAL''} = {''A''}"
    by (simp only: set_filter)
  with alert_state_iff [of scenario] have b: "failedTasks (alert_banner scenario) = {''A''}"
    by simp
  have w: "\<forall>e\<in>set warnings. level e = ''WARNING''"
    by (simp add: warnings_def)
  with alert_state_iff [of warnings] have c: "\<not> hasAlert (alert_banner warnings)"
    by blast
  have d: "map level warnings = [''WARNING'', ''WARNING'']"
    by (simp add: warnings_def)
  from a b c d show ?thesis by simp
qed

text \<open>
  Claim C4 (the daily trend, line 225). The series has one entry per calendar date that
  occurs in the data and no other: the dates of its entries are exactly the dates of the
  events, so a date without events gets no entry; every count is positive and is the
  number of events of that date; the counts add up to the number of events; and the
  dates are strictly ascending, so none occurs twice.
\<close>
theorem daily_stats_sparse:
  "(\<forall>dc\<in>set (daily_stats df).
       0 < snd dc \<and> snd dc = length (filter (\<lambda>e. date_of (created_at e) = fst dc) df))
   \<and> fst ` set (daily_stats df) = (\<lambda>e. date_of (created_at e)) ` set df
   \<and> sum_list (map snd (daily_stats df)) = length df
   \<and> sorted_wrt (<) (map fst (daily_stats df))"
proof -
  let ?ks = "map (\<lambda>e. date_of (created_at e)) df"
  have cnt: "length (filter (\<lambda>x. x = d) ?ks) = length (filter (\<lambda>e. date_of (created_at e) = d) df)" for d
    by (simp add: filter_map comp_def)
  have a: "0 < snd dc \<and> snd dc = length (filter (\<lambda>e. date_of (created_at e) = fst dc) df)"
    if "dc \<in> set (daily_stats df)" for dc
  proof -
    from that have "fst dc \<in> set ?ks" and "snd dc = length (filter (\<lambda>x. x = fst dc) ?ks)"
      using groupby_size_entry [of dc ?ks] by (simp_all add: daily_stats_def)
    with length_filter_pos [of "fst dc" ?ks] show ?thesis
      by (simp only: cnt)
  qed
  have "set (map fst (daily_stats df)) = set ?ks"
    by (simp only: daily_stats_def groupby_size_keys set_sort set_unique)
  then have b: "fst ` set (daily_stats df) = (\<lambda>e. date_of (created_at e)) ` set df"
    by simp
  have "sum_list (map snd (daily_stats df)) = length ?ks"
    unfolding daily_stats_def groupby_size_counts
    by (rule sum_list_counts) (simp_all add: distinct_unique set_unique)
  then have c: "sum_list (map snd (daily_stats df)) = length df"
    by simp
  have d: "sorted_wrt (<) (map fst (daily_stats df))"
    by (simp add: daily_stats_def groupby_size_keys strict_sorted_iff distinct_unique)
  from a b c d show ?thesis by blast
qed

theorem daily_stats_sparse_witness:
  "daily_stats warnings = [(1, 1), (4, 1)]
   \<and> length (filter (\<lambda>e. date_of (created_at e) = 1) warnings) = 1
   \<and> length (filter (\<lambda>e. date_of (created_at e) = 2) warnings) = 0
   \<and> 2 \<notin> fst ` set (daily_stats warnings)"
proof -
  have ev: "daily_stats warnings = [(1, 1), (4, 1)]"
    by code_simp
  then have "(1, 1) \<in> set (daily_stats warnings)"
    by simp
  with daily_stats_sparse [of warnings]
  have "snd (1::int, 1::nat) = length (filter (\<lambda>e. date_of (created_at e) = fst (1::int, 1::nat)) warnings)"
    by blast
  then have a: "length (filter (\<lambda>e. date_of (created_at e) = 1) warnings) = 1"
    by simp
  have b: "length (filter (\<lambda>e. date_of (created_at e) = 2) warnings) = 0"
    by (simp add: warnings_def date_of_def)
  have c: "2 \<notin> fst ` set (daily_stats warnings)"
    unfolding ev by simp
  from ev a b c show ?thesis by (intro conjI)
qed

text \<open>
  Claim C5 (lines 126--127, 191--205 and 238). The views computed from one collection
  agree on the number of events: the counts of the level distribution add up to Total
  Runs, the Total Runs of the rows of the script statistics add up to Total Runs, and
  Total Runs is the number of events. The same holds of the parts of a rendered page.
\<close>
theorem views_agree_on_total:
  assumes "valid_argsort a"
  shows "sum_list (map snd (level_stats a df)) = total_runs df
       \<and> (\<exists>rows. script_stats df = Inr rows \<and> sum_list (map Total_Runs rows) = total_runs df)
       \<and> total_runs df = length df
       \<and> (\<forall>b m t s d l. dashboard a fmt df = Inr (Rendered b m t s d l) \<longrightarrow>
            sum_list (map snd l) = m_total_runs m \<and> sum_list (map Total_Runs s) = m_total_runs m)"
proof -
  have lv: "sum_list (map snd (level_stats a df)) = total_runs df"
    using value_counts_sum [OF assms, of "map level df"]
    by (simp add: level_stats_def total_runs_def)
  have st: "\<exists>rows. script_stats df = Inr rows \<and> sum_list (map Total_Runs rows) = total_runs df"
    using script_stats_total_sum [of df] by (simp add: total_runs_def)
  have tr: "total_runs df = length df"
    by (simp add: total_runs_def)
  have pg: "sum_list (map snd l) = m_total_runs m \<and> sum_list (map Total_Runs s) = m_total_runs m"
    if "dashboard a fmt df = Inr (Rendered b m t s d l)" for b m t s d l
  proof -
    from that have ne: "df \<noteq> []"
      by (auto simp: dashboard_def)
    from dashboard_rendered [OF ne, of a fmt] that
    have "script_stats df = Inr s" and "l = level_stats a df" and "m_total_runs m = total_runs df"
      by auto
    with lv st show ?thesis by auto
  qed
  from lv st tr pg show ?thesis by blast
qed

theorem views_agree_on_total_witness:
  "valid_argsort argsort_stable
   \<and> level_stats argsort_stable scenario = [(''INFO'', 2), (''ERROR'', 1)]
   \<and> total_runs scenario = 3
   \<and> (\<exists>rows. script_stats scenario = Inr rows \<and> sum_list (map Total_Runs rows) = 3)
   \<and> (\<exists>b m t s d l. dashboard argsort_stable (\<lambda>ts. ''-'') scenario = Inr (Rendered b m t s d l)
         \<and> sum_list (map snd l) = m_total_runs m \<and> sum_list (map Total_Runs s) = m_total_runs m)"
proof -
  note main = views_agree_on_total [OF valid_argsort_stable, of scenario "\<lambda>ts. ''-''"]
  have ev: "level_stats argsort_stable scenario = [(''INFO'', 2), (''ERROR'', 1)]"
    by code_simp
  from main have "sum_list (map snd (level_stats argsort_stable scenario)) = total_runs scenario"
    by blast
  then have tr: "total_runs scenario = 3"
    unfolding ev by simp
  from main have st: "\<exists>rows. script_stats scenario = Inr rows \<and> sum_list (map Total_Runs rows) = 3"
    unfolding tr by blast
  have "scenario \<noteq> []"
    by (simp add: scenario_def)
  from dashboard_rendered [OF this, of argsort_stable "\<lambda>ts. ''-''"]
  obtain b m t s d l where pg: "dashboard argsort_stable (\<lambda>ts. ''-'') scenario = Inr (Rendered b m t s d l)"
    by blast
  with main have "sum_list (map snd l) = m_total_runs m \<and> sum_list (map Total_Runs s) = m_total_runs m"
    by blast
  with pg have "\<exists>b m t s d l. dashboard argsort_stable (\<lambda>ts. ''-'') scenario = Inr (Rendered b m t s d l)
         \<and> sum_list (map snd l) = m_total_runs m \<and> sum_list (map Total_Runs s) = m_total_runs m"
    by blast
  with valid_argsort_stable ev tr st show ?thesis by (intro conjI)
qed

text \<open>
  Claim C6 (line 191). The script statistics depend only on the events and not on their
  order: two collections with the same events, each as many times, give the same rows
  in the same order. The rows are sorted strictly ascending by script name, in the
  lexicographic order of strings by character code: their names are the sorted list of
  the set of task names.
\<close>
theorem script_stats_order_independent:
  assumes "mset df' = mset df"
  shows "script_stats df' = script_stats df
       \<and> (\<exists>rows. script_stats df = Inr rows
             \<and> sorted_wrt (<) (map Script rows)
             \<and> map Script rows = sorted_list_of_set (task_name ` set df))"
proof -
  have eq: "script_stats df' = script_stats df"
    unfolding script_stats_def
    by (simp only: sorted_names_mset_cong [OF assms] script_loop_mset_cong [OF assms])
  obtain rows where rows: "script_stats df = Inr rows"
    "map Script rows = sort (unique (map task_name df))"
    using script_stats_rows by blast
  have s: "sorted_wrt (<) (map Script rows)"
    by (simp add: rows(2) strict_sorted_iff distinct_unique)
  have "sort (unique (map task_name df)) = sorted_list_of_set (task_name ` set df)"
    by (rule sorted_distinct_set_unique) (simp_all add: distinct_unique set_unique)
  with rows(2) have l: "map Script rows = sorted_list_of_set (task_name ` set df)"
    by simp
  from eq rows(1) s l show ?thesis by blast
qed

theorem script_stats_order_independent_witness:
  "mset (rev scenario) = mset scenario
   \<and> script_stats (rev scenario) = script_stats scenario
   \<and> script_stats [scenario ! 2, scenario ! 0, scenario ! 1] = script_stats scenario
   \<and> (\<exists>rows. script_stats scenario = Inr rows \<and> map Script rows = [''A'', ''B''])
   \<and> ''A'' < ''B''"
proof -
  have p: "mset (rev scenario) = mset scenario"
    by simp
  have q: "mset [scenario ! 2, scenario ! 0, scenario ! 1] = mset scenario"
    by (simp add: scenario_def)
  have ev: "script_stats scenario =
     Inr [\<lparr>Script = ''A'', Total_Runs = 2, Success = 1, Failed = 1, Success_Rate = 50\<rparr>,
          \<lparr>Script = ''B'', Total_Runs = 1, Success = 1, Failed = 0, Success_Rate = 100\<rparr>]"
    by code_simp
  from script_stats_order_independent [OF p]
  have a: "script_stats (rev scenario) = script_stats scenario"
    by blast
  from script_stats_order_independent [OF q]
  have b: "script_stats [scenario ! 2, scenario ! 0, scenario ! 1] = script_stats scenario"
    by blast
  from ev have c: "\<exists>rows. script_stats scenario = Inr rows \<and> map Script rows = [''A'', ''B'']"
    by simp
  have d: "''A'' < ''B''"
    by code_simp
  from p a b c d show ?thesis by (intro conjI)
qed





text \<open>
  Claim C9 (lines 155--171). In the table of latest runs the status of an event is the
  success status if and only if its level is INFO; with any other level, WARNING
  included, it is the failure mark followed by the level. The message of the event is
  shown when the level is ERROR or CRITICAL, and is the placeholder \<^verbatim>\<open>-\<close> otherwise. So an
  event with an unclassified level is displayed with the failure mark and the
  placeholder, while in the script statistics it adds one to Total Runs of its task and
  nothing to Success or Failed.
\<close>
theorem table_entry_status:
  "(Status (table_entry fmt e) = check_mark @ '' Success'' \<longleftrightarrow> level e = ''INFO'')
   \<and> (level e \<noteq> ''INFO'' \<longrightarrow> Status (table_entry fmt e) = cross_mark @ '' '' @ level e)
   \<and> Message (table_entry fmt e)
        = (if level e = ''ERROR'' \<or> level e = ''CRITICAL'' then message e else ''-'')
   \<and> table_data fmt (latest_runs a df) = map (table_entry fmt) (latest_runs a df)
   \<and> (level e \<noteq> ''INFO'' \<and> level e \<noteq> ''ERROR'' \<and> level e \<noteq> ''CRITICAL'' \<longrightarrow>
        Status (table_entry fmt e) = cross_mark @ '' '' @ level e
        \<and> Message (table_entry fmt e) = ''-''
        \<and> (\<exists>r r'. script_entry df (task_name e) = Inr r
              \<and> script_entry (e # df) (task_name e) = Inr r'
              \<and> Total_Runs r' = Suc (Total_Runs r)
              \<and> Success r' = Success r \<and> Failed r' = Failed r))"
proof -
  have a: "Status (table_entry fmt e) = check_mark @ '' Success'' \<longleftrightarrow> level e = ''INFO''"
    by (simp add: table_entry_def check_mark_def cross_mark_def)
  have b: "level e \<noteq> ''INFO'' \<longrightarrow> Status (table_entry fmt e) = cross_mark @ '' '' @ level e"
    by (simp add: table_entry_def)
  have c: "Message (table_entry fmt e)
        = (if level e = ''ERROR'' \<or> level e = ''CRITICAL'' then message e else ''-'')"
    by (simp add: table_entry_def)
  have d: "table_data fmt (latest_runs a df) = map (table_entry fmt) (latest_runs a df)"
    by (simp add: table_data_def)
  have s: "\<exists>r r'. script_entry df (task_name e) = Inr r
              \<and> script_entry (e # df) (task_name e) = Inr r'
              \<and> Total_Runs r' = Suc (Total_Runs r)
              \<and> Success r' = Success r \<and> Failed r' = Failed r"
    if "level e \<noteq> ''INFO''" "level e \<noteq> ''ERROR''" "level e \<noteq> ''CRITICAL''"
    unfolding script_entry_value using that by simp
  from a b c d s show ?thesis by simp
qed

theorem table_entry_status_witness:
  "level (warnings ! 0) = ''WARNING''
   \<and> Status (table_entry (\<lambda>ts. ''-'') (warnings ! 0)) = cross_mark @ '' WARNING''
   \<and> Message (table_entry (\<lambda>ts. ''-'') (warnings ! 0)) = ''-''
   \<and> Status (table_entry (\<lambda>ts. ''-'') (scenario ! 0)) = check_mark @ '' Success''
   \<and> Message (table_entry (\<lambda>ts. ''-'') (scenario ! 1)) = ''boom''
   \<and> (\<exists>r'. script_entry [warnings ! 0] ''B'' = Inr r'
         \<and> Total_Runs r' = 1 \<and> Success r' = 0 \<and> Failed r' = 0)"
proof -
  let ?w = "warnings ! 0"
  note main = table_entry_status [of "\<lambda>ts. ''-''" ?w argsort_stable "[]"]
  have lw: "level ?w = ''WARNING''"
    by (simp add: warnings_def)
  then have u: "level ?w \<noteq> ''INFO'' \<and> level ?w \<noteq> ''ERROR'' \<and> level ?w \<noteq> ''CRITICAL''"
    by simp
  with main have st: "Status (table_entry (\<lambda>ts. ''-'') ?w) = cross_mark @ '' '' @ level ?w"
    and ms: "Message (table_entry (\<lambda>ts. ''-'') ?w) = ''-''"
    and ex: "\<exists>r r'. script_entry [] (task_name ?w) = Inr r
              \<and> script_entry [?w] (task_name ?w) = Inr r'
              \<and> Total_Runs r' = Suc (Total_Runs r)
              \<and> Success r' = Success r \<and> Failed r' = Failed r"
    by blast+
  have empty: "script_entry [] (task_name ?w)
      = Inr \<lparr>Script = task_name ?w, Total_Runs = 0, Success = 0, Failed = 0, Success_Rate = 0\<rparr>"
    by (simp add: script_entry_value)
  have tn: "task_name ?w = ''B''"
    by (simp add: warnings_def)
  from ex obtain r' where "script_entry [?w] (task_name ?w) = Inr r'"
    and "Total_Runs r' = 1" and "Success r' = 0" and "Failed r' = 0"
    unfolding empty by auto
  then have e: "\<exists>r'. script_entry [?w] ''B'' = Inr r'
         \<and> Total_Runs r' = 1 \<and> Success r' = 0 \<and> Failed r' = 0"
    unfolding tn by blast
  have "level (scenario ! 0) = ''INFO''"
    by (simp add: scenario_def)
  with table_entry_status [of "\<lambda>ts. ''-''" "scenario ! 0" argsort_stable "[]"]
  have ok: "Status (table_entry (\<lambda>ts. ''-'') (scenario ! 0)) = check_mark @ '' Success''"
    by blast
  have "level (scenario ! 1) = ''ERROR''" and "message (scenario ! 1) = ''boom''"
    by (simp_all add: scenario_def)
  with table_entry_status [of "\<lambda>ts. ''-''" "scenario ! 1" argsort_stable "[]"]
  have er: "Message (table_entry (\<lambda>ts. ''-'') (scenario ! 1)) = ''boom''"
    by simp
  from lw st ms ok er e show ?thesis
    by (simp only: lw) simp
qed

text \<open>
  Claim C10 (lines 126--138 and 194--197). In every row of the script statistics, and
  for the key metrics of the whole collection, Success + Failed is at most Total Runs,
  with equality if and only if every event counted has level INFO, ERROR or CRITICAL.
  No event is counted both as a success and as a failure, since no level is INFO and a
  member of ERROR, CRITICAL at once.
\<close>
theorem success_plus_failure_le_total:
  "(\<exists>rows. script_stats df = Inr rows
      \<and> (\<forall>r\<in>set rows. Success r + Failed r \<le> Total_Runs r
            \<and> (Success r + Failed r = Total_Runs r \<longleftrightarrow>
                 (\<forall>e\<in>set df. task_name e = Script r \<longrightarrow>
                    level e = ''INFO'' \<or> level e = ''ERROR'' \<or> level e = ''CRITICAL''))))
   \<and> success_count df + error_count df \<le> total_runs df
   \<and> (success_count df + error_count df = total_runs df \<longleftrightarrow>
        (\<forall>e\<in>set df. level e = ''INFO'' \<or> level e = ''ERROR'' \<or> level e = ''CRITICAL''))
   \<and> (\<forall>e\<in>set df. \<not> (level e = ''INFO'' \<and> level e \<in> set [''ERROR'', ''CRITICAL'']))"
proof -
  have rest: "length (filter (\<lambda>e. G e \<and> level e \<noteq> ''INFO''
                                    \<and> level e \<noteq> ''ERROR'' \<and> level e \<noteq> ''CRITICAL'') df) = 0
      \<longleftrightarrow> (\<forall>e\<in>set df. G e \<longrightarrow> level e = ''INFO'' \<or> level e = ''ERROR'' \<or> level e = ''CRITICAL'')" for G
    by (auto simp: filter_empty_conv)
  obtain rows where rows: "script_stats df = Inr rows"
    "\<forall>r\<in>set rows. script_entry df (Script r) = Inr r"
    using script_stats_rows by blast
  have per_row: "Success r + Failed r \<le> Total_Runs r
            \<and> (Success r + Failed r = Total_Runs r \<longleftrightarrow>
                 (\<forall>e\<in>set df. task_name e = Script r \<longrightarrow>
                    level e = ''INFO'' \<or> level e = ''ERROR'' \<or> level e = ''CRITICAL''))"
    if "r \<in> set rows" for r
  proof -
    let ?G = "\<lambda>e. task_name e = Script r"
    from rows(2) that have e: "script_entry df (Script r) = Inr r"
      by blast
    show ?thesis
      unfolding script_entry_fields(2-4) [OF e]
      using level_split [of ?G df] rest [of ?G] by linarith
  qed
  have whole: "success_count df + error_count df \<le> total_runs df
   \<and> (success_count df + error_count df = total_runs df \<longleftrightarrow>
        (\<forall>e\<in>set df. level e = ''INFO'' \<or> level e = ''ERROR'' \<or> level e = ''CRITICAL''))"
    using level_split [of "\<lambda>e. True" df] rest [of "\<lambda>e. True"]
    by (simp add: success_count_def error_count_def total_runs_def)
  have disj: "\<forall>e\<in>set df. \<not> (level e = ''INFO'' \<and> level e \<in> set [''ERROR'', ''CRITICAL''])"
    by auto
  from rows(1) per_row whole disj show ?thesis by blast
qed

theorem success_plus_failure_le_total_witness:
  "success_count scenario + error_count scenario = total_runs scenario
   \<and> map level scenario = [''INFO'', ''ERROR'', ''INFO'']
   \<and> success_count warnings + error_count warnings < total_runs warnings
   \<and> (\<exists>rows. script_stats scenario = Inr rows \<and> rows \<noteq> []
          \<and> map Success rows = [1, 1] \<and> map Failed rows = [1, 0] \<and> map Total_Runs rows = [2, 1])"
proof -
  have cl: "\<forall>e\<in>set scenario. level e = ''INFO'' \<or> level e = ''ERROR'' \<or> level e = ''CRITICAL''"
    by (simp add: scenario_def)
  with success_plus_failure_le_total [of scenario]
  have a: "success_count scenario + error_count scenario = total_runs scenario"
    by blast
  have b: "map level scenario = [''INFO'', ''ERROR'', ''INFO'']"
    by (simp add: scenario_def)
  have "\<not> (\<forall>e\<in>set warnings. level e = ''INFO'' \<or> level e = ''ERROR'' \<or> level e = ''CRITICAL'')"
    by (simp add: warnings_def)
  with success_plus_failure_le_total [of warnings]
  have "success_count warnings + error_count warnings \<le> total_runs warnings"
    and "success_count warnings + error_count warnings \<noteq> total_runs warnings"
    by blast+
  then have c: "success_count warnings + error_count warnings < total_runs warnings"
    by simp
  from success_plus_failure_le_total [of scenario]
  obtain rows where rows: "script_stats scenario = Inr rows"
    and per: "\<forall>r\<in>set rows. Success r + Failed r \<le> Total_Runs r"
    by blast
  have ev: "script_stats scenario =
      Inr [\<lparr>Script = ''A'', Total_Runs = 2, Success = 1, Failed = 1, Success_Rate = 50\<rparr>,
           \<lparr>Script = ''B'', Total_Runs = 1, Success = 1, Failed = 0, Success_Rate = 100\<rparr>]"
    by code_simp
  with rows have "rows \<noteq> [] \<and> map Success rows = [1, 1] \<and> map Failed rows = [1, 0]
      \<and> map Total_Runs rows = [2, 1]"
    by auto
  with rows have d: "\<exists>rows. script_stats scenario = Inr rows \<and> rows \<noteq> []
          \<and> map Success rows = [1, 1] \<and> map Failed rows = [1, 0] \<and> map Total_Runs rows = [2, 1]"
    by (intro exI [of _ rows] conjI) simp_all
  from a b c d show ?thesis by (intro conjI)
qed

end
